theory Spec2Isabelle
  imports
    Main
    "HOL-Library.AList"
    "HOL-Library.List_Lexorder"
    "HOL-Library.Log_Nat"
    "HOL-Library.Multiset"
begin

section \<open>Python strings\<close>

text \<open>
  A Python \<open>str\<close> is a sequence of Unicode code points, so a string is a list of
  natural numbers and \<open>len\<close> is \<open>length\<close>. \<open>cp\<close> reads an ASCII literal as such
  a string; the letters with an accent in the program's messages are written by their
  code point.
\<close>

type_synonym codepoint = nat
type_synonym pystr = "codepoint list"

definition cp :: "string \<Rightarrow> pystr" where
  "cp s = map of_char s"

text \<open>
  \<open>str.isspace\<close> of one character: the white space that \<open>str.split()\<close> and
  \<open>str.strip()\<close> without arguments remove.
\<close>

definition is_space :: "codepoint \<Rightarrow> bool" where
  "is_space c =
     ((9 \<le> c \<and> c \<le> 13) \<or> (28 \<le> c \<and> c \<le> 32) \<or> c = 133 \<or> c = 160 \<or> c = 5760
      \<or> (8192 \<le> c \<and> c \<le> 8202) \<or> c = 8232 \<or> c = 8233 \<or> c = 8239 \<or> c = 8287
      \<or> c = 12288)"

text \<open>
  \<open>str.upper\<close> maps every character on its own to its full upper case, which can
  be more than one character (\<open>U+00DF\<close> becomes \<open>SS\<close>). The mapping of the code
  points below 256 is written out; the rest of the interpreter's Unicode table is the
  parameter \<open>ucd\<close>, and every general theorem below holds for any such table.
\<close>

definition upper_char :: "(codepoint \<Rightarrow> pystr) \<Rightarrow> codepoint \<Rightarrow> pystr" where
  "upper_char ucd c =
     (if 97 \<le> c \<and> c \<le> 122 then [c - 32]
      else if c < 181 then [c]
      else if c = 181 then [924]
      else if c = 223 then [83, 83]
      else if 224 \<le> c \<and> c \<le> 254 \<and> c \<noteq> 247 then [c - 32]
      else if c = 255 then [376]
      else if c < 256 then [c]
      else ucd c)"

definition str_upper :: "(codepoint \<Rightarrow> pystr) \<Rightarrow> pystr \<Rightarrow> pystr" where
  "str_upper ucd s = concat (map (upper_char ucd) s)"

text \<open>
  A table that leaves every code point from 256 on as it is. It only fills the
  parameter in the closed examples, whose inputs stay below 256.
\<close>

definition ucd_unchanged :: "codepoint \<Rightarrow> pystr" where
  "ucd_unchanged c = [c]"

definition str_strip :: "pystr \<Rightarrow> pystr" where
  "str_strip s = rev (dropWhile is_space (rev (dropWhile is_space s)))"

text \<open>\<open>s.split(sep)\<close> for a separator of one character, as both calls of the source are.\<close>

fun str_split :: "codepoint \<Rightarrow> pystr \<Rightarrow> pystr list" where
  "str_split sep [] = [[]]"
| "str_split sep (c # cs) =
     (if c = sep then [] # str_split sep cs
      else (case str_split sep cs of
              [] \<Rightarrow> [[c]]
            | w # ws \<Rightarrow> (c # w) # ws))"

text \<open>\<open>s.split()\<close>: the maximal runs of characters that are not white space.\<close>

function str_split_ws :: "pystr \<Rightarrow> pystr list" where
  "str_split_ws s =
     (case dropWhile is_space s of
        [] \<Rightarrow> []
      | c # cs \<Rightarrow>
          (c # takeWhile (\<lambda>x. \<not> is_space x) cs)
            # str_split_ws (dropWhile (\<lambda>x. \<not> is_space x) cs))"
  by pat_completeness auto
termination
proof (relation "measure length")
  show "wf (measure length)" by simp
next
  fix s :: pystr and c cs
  assume h: "dropWhile is_space s = c # cs"
  have "length (dropWhile (\<lambda>x. \<not> is_space x) cs) \<le> length cs"
    by (rule length_dropWhile_le)
  also have "length cs < length (dropWhile is_space s)"
    using h by simp
  also have "length (dropWhile is_space s) \<le> length s"
    by (rule length_dropWhile_le)
  finally show "(dropWhile (\<lambda>x. \<not> is_space x) cs, s) \<in> measure length"
    by simp
qed

fun str_join :: "pystr \<Rightarrow> pystr list \<Rightarrow> pystr" where
  "str_join sep [] = []"
| "str_join sep [x] = x"
| "str_join sep (x # y # ys) = x @ sep @ str_join sep (y # ys)"

text \<open>\<open>s.count(c)\<close> for a needle of one character.\<close>

definition str_count :: "pystr \<Rightarrow> codepoint \<Rightarrow> nat" where
  "str_count s c = length (filter (\<lambda>x. x = c) s)"

section \<open>Exceptions and dictionaries\<close>

datatype error =
    ValueError pystr
  | IndexError
  | KeyError pystr
  | ZeroDivisionError
  | FileNotFoundError pystr
  | IOError pystr

text \<open>
  A \<open>dict\<close> is an association list in insertion order: \<open>d[k] = v\<close> is
  \<open>AList.update k v d\<close>, \<open>d.get(k)\<close> is \<open>map_of d k\<close>, and \<open>d[k]\<close> raises
  \<open>KeyError\<close> on a missing key.
\<close>

definition dict_item :: "(pystr \<times> 'v) list \<Rightarrow> pystr \<Rightarrow> error + 'v" where
  "dict_item d k = (case map_of d k of None \<Rightarrow> Inl (KeyError k) | Some v \<Rightarrow> Inr v)"

definition dict_get :: "(pystr \<times> 'v) list \<Rightarrow> pystr \<Rightarrow> 'v \<Rightarrow> 'v" where
  "dict_get d k dflt = (case map_of d k of None \<Rightarrow> dflt | Some v \<Rightarrow> v)"

section \<open>Rock, paper, scissors (rps.py)\<close>

definition VALID_CHOICES :: "pystr list" where
  "VALID_CHOICES = [cp ''rock'', cp ''paper'', cp ''scissors'']"

definition wins :: "(pystr \<times> pystr) list" where
  "wins = [(cp ''rock'', cp ''scissors''), (cp ''scissors'', cp ''paper''),
           (cp ''paper'', cp ''rock'')]"

definition determine_result :: "pystr \<Rightarrow> pystr \<Rightarrow> pystr" where
  "determine_result user cpu =
     (if user = cpu then cp ''draw''
      else if map_of wins user = Some cpu then cp ''win''
      else cp ''lose'')"

text \<open>
  \<open>random.choice(seq)\<close> is \<open>seq[randbelow(len(seq))]\<close>; the generator is the
  parameter \<open>randbelow\<close>.
\<close>

definition random_choice :: "(nat \<Rightarrow> nat) \<Rightarrow> 'a list \<Rightarrow> error + 'a" where
  "random_choice randbelow xs =
     (let i = randbelow (length xs)
      in if i < length xs then Inr (xs ! i) else Inl IndexError)"

definition msg_invalid_choice :: "pystr \<Rightarrow> pystr" where
  "msg_invalid_choice user_choice =
     cp ''Opci'' @ [243] @ cp ''n inv'' @ [225] @ cp ''lida: '' @ user_choice"

definition play :: "(nat \<Rightarrow> nat) \<Rightarrow> pystr \<Rightarrow> error + (pystr \<times> pystr)" where
  "play randbelow user_choice =
     (if user_choice \<notin> set VALID_CHOICES
      then Inl (ValueError (msg_invalid_choice user_choice))
      else (case random_choice randbelow VALID_CHOICES of
              Inl e \<Rightarrow> Inl e
            | Inr cpu_choice \<Rightarrow>
                (let result = determine_result user_choice cpu_choice
                 in Inr (cpu_choice, result))))"

text \<open>The dominance cycle as the specification words it, to compare with \<open>wins\<close>.\<close>

fun spec_beats :: "pystr \<Rightarrow> pystr \<Rightarrow> bool" where
  "spec_beats u c =
     ((u = cp ''rock'' \<and> c = cp ''scissors'')
      \<or> (u = cp ''scissors'' \<and> c = cp ''paper'')
      \<or> (u = cp ''paper'' \<and> c = cp ''rock''))"

section \<open>Floating point\<close>

text \<open>
  A finite \<open>float\<close> is modelled by the rational number it holds. \<open>to_double\<close> is
  rounding to the nearest binary64 value, ties to even: 53 significant bits, and the
  fixed spacing \<open>2 ^ -1074\<close> in the subnormal range. The values rounded here lie
  between 0 and 100, so the overflow to infinity is left out.
\<close>

type_synonym double = rat

definition pow2 :: "int \<Rightarrow> rat" where
  "pow2 e = (if 0 \<le> e then 2 ^ nat e else 1 / 2 ^ nat (- e))"

definition pow10 :: "int \<Rightarrow> rat" where
  "pow10 e = (if 0 \<le> e then 10 ^ nat e else 1 / 10 ^ nat (- e))"

text \<open>The exponent of the leading bit of a positive rational: \<open>\<lfloor>log\<^sub>2 x\<rfloor>\<close>.\<close>

definition ilog2 :: "rat \<Rightarrow> int" where
  "ilog2 x =
     (case quotient_of x of (p, q) \<Rightarrow>
        (let d = bitlen p - bitlen q in if pow2 d \<le> x then d else d - 1))"

definition round_half_even :: "rat \<Rightarrow> int" where
  "round_half_even x =
     (let f = \<lfloor>x\<rfloor>; r = x - of_int f
      in if r < 1 / 2 then f
         else if 1 / 2 < r then f + 1
         else if even f then f else f + 1)"

definition to_double :: "rat \<Rightarrow> double" where
  "to_double x =
     (if x = 0 then 0
      else (let e = ilog2 \<bar>x\<bar>; s = max (e - 52) (- 1074)
            in of_int (round_half_even (x / pow2 s)) * pow2 s))"

text \<open>\<open>a / b\<close> on two integers: the quotient, correctly rounded.\<close>

definition int_true_div :: "nat \<Rightarrow> nat \<Rightarrow> error + double" where
  "int_true_div a b =
     (if b = 0 then Inl ZeroDivisionError else Inr (to_double (of_nat a / of_nat b)))"

definition float_mul :: "double \<Rightarrow> double \<Rightarrow> double" where
  "float_mul x y = to_double (x * y)"

text \<open>
  \<open>round(x, ndigits)\<close> on a float: beyond 323 digits the value itself, below
  \<open>-308\<close> zero, and otherwise the float nearest to the decimal number with
  \<open>ndigits\<close> places that is nearest to \<open>x\<close>, a tie between two decimals going to the
  even one.
\<close>

definition py_round :: "double \<Rightarrow> int \<Rightarrow> double" where
  "py_round x ndigits =
     (if 323 < ndigits then x
      else if ndigits < - 308 then 0
      else to_double (of_int (round_half_even (x * pow10 ndigits)) / pow10 ndigits))"

section \<open>AT content (at\_content.py)\<close>

definition get_at_content :: "(codepoint \<Rightarrow> pystr) \<Rightarrow> pystr \<Rightarrow> int \<Rightarrow> error + double" where
  "get_at_content ucd dna sig_figs =
     (let dna = str_upper ucd dna;
          len = length dna;
          a = str_count dna 65;
          t = str_count dna 84
      in (case int_true_div (a + t) len of
            Inl e \<Rightarrow> Inl e
          | Inr at_content \<Rightarrow> Inr (py_round at_content sig_figs)))"

section \<open>Base frequencies of a FASTA file (base\_freq.py)\<close>

text \<open>
  The file system maps a path to what \<open>read_file\<close> finds there. A printed line is
  the list of the arguments of its \<open>print\<close> call: strings, integers, and the
  percentage that an f-string formats, kept as its value.
\<close>

datatype file_state = Missing | Unreadable pystr | Content pystr

datatype item = Str pystr | Num nat | Pct double

type_synonym line = "item list"

definition read_file :: "(pystr \<Rightarrow> file_state) \<Rightarrow> pystr \<Rightarrow> error + pystr" where
  "read_file fs path =
     (case fs path of
        Missing \<Rightarrow> Inl (FileNotFoundError path)
      | Unreadable e \<Rightarrow> Inl (IOError e)
      | Content text \<Rightarrow> Inr text)"

definition msg_not_fasta :: pystr where
  "msg_not_fasta = cp ''Error: El archivo no parece estar en formato FASTA.''"

definition msg_empty_fasta :: pystr where
  "msg_empty_fasta =
     cp ''Error: FASTA vac'' @ [237] @ cp ''o o sin secuencia v'' @ [225] @ cp ''lida.''"

definition msg_empty_sequence :: pystr where
  "msg_empty_sequence =
     cp ''Error: la secuencia est'' @ [225] @ cp '' vac'' @ [237] @ cp ''a.''"

definition msg_no_valid_bases :: pystr where
  "msg_no_valid_bases =
     cp ''Error: la secuencia no contiene bases v'' @ [225] @ cp ''lidas (A,T,G,C).''"

definition validate_is_fasta :: "pystr \<Rightarrow> error + unit" where
  "validate_is_fasta content =
     (if 62 \<notin> set content then Inl (ValueError msg_not_fasta)
      else (let partes = str_split 62 content
            in if length partes < 2 then Inl (ValueError msg_empty_fasta) else Inr ()))"

definition parse_single_fasta :: "pystr \<Rightarrow> error + (pystr \<times> pystr)" where
  "parse_single_fasta content =
     (let partes = str_split 62 content
      in if length partes < 2 then Inl IndexError
         else (case str_split 10 (str_strip (partes ! 1)) of
                 [] \<Rightarrow> Inl IndexError
               | header # rest \<Rightarrow>
                   (let seq_raw = str_strip (str_join [] rest)
                    in if length seq_raw = 0 then Inl (ValueError msg_empty_sequence)
                       else Inr (header, seq_raw))))"

definition default_valid_bases :: "pystr list" where
  "default_valid_bases = [cp ''A'', cp ''T'', cp ''G'', cp ''C'']"

text \<open>
  The loop of \<open>clean_sequence\<close> over the characters of the upper-cased sequence,
  with its two lists of one-character strings.
\<close>

fun clean_loop :: "pystr list \<Rightarrow> pystr \<Rightarrow> pystr list \<Rightarrow> pystr list \<Rightarrow> pystr list \<times> pystr list" where
  "clean_loop valid_bases [] seq_clean invalid_chars = (seq_clean, invalid_chars)"
| "clean_loop valid_bases (base # rest) seq_clean invalid_chars =
     (if [base] \<in> set valid_bases
      then clean_loop valid_bases rest (seq_clean @ [[base]]) invalid_chars
      else clean_loop valid_bases rest seq_clean (invalid_chars @ [[base]]))"

definition clean_sequence :: "(codepoint \<Rightarrow> pystr) \<Rightarrow> pystr \<Rightarrow> pystr list \<Rightarrow> pystr \<times> pystr list" where
  "clean_sequence ucd seq valid_bases =
     (let seq_upper = str_upper ucd seq
      in (case clean_loop valid_bases seq_upper [] [] of
            (seq_clean, invalid_chars) \<Rightarrow> (str_join [] seq_clean, invalid_chars)))"

definition compute_base_counts :: "pystr \<Rightarrow> (pystr \<times> nat) list" where
  "compute_base_counts seq =
     [(cp ''A'', str_count seq 65),
      (cp ''T'', str_count seq 84),
      (cp ''G'', str_count seq 71),
      (cp ''C'', str_count seq 67),
      (cp ''total'', length seq)]"

definition line_header :: "pystr \<Rightarrow> line" where
  "line_header header = [Str (cp ''Encabezado:''), Str header]"

definition line_length :: "nat \<Rightarrow> line" where
  "line_length n_total =
     [Str (cp ''Longitud secuencia v'' @ [225] @ cp ''lida:''), Num n_total]"

text \<open>One line of the frequencies: \<open>round((n / n_total) * 100, 2)\<close> in its f-string.\<close>

definition line_freq :: "pystr \<Rightarrow> nat \<Rightarrow> nat \<Rightarrow> error + line" where
  "line_freq label n n_total =
     (case int_true_div n n_total of
        Inl e \<Rightarrow> Inl e
      | Inr q \<Rightarrow> Inr [Str label, Num n, Pct (py_round (float_mul q 100) 2)])"

text \<open>
  The lines that \<open>print_results\<close> printed, and the exception that ended it, if one
  did: printing goes on line by line until a statement raises.
\<close>

fun print_freqs :: "(pystr \<times> nat) list \<Rightarrow> nat \<Rightarrow> line list \<times> error option" where
  "print_freqs [] n_total = ([], None)"
| "print_freqs ((label, n) # more) n_total =
     (case line_freq label n n_total of
        Inl e \<Rightarrow> ([], Some e)
      | Inr l \<Rightarrow> (case print_freqs more n_total of (ls, r) \<Rightarrow> (l # ls, r)))"

definition print_results :: "pystr \<Rightarrow> (pystr \<times> nat) list \<Rightarrow> line list \<times> error option" where
  "print_results header counts =
     (case dict_item counts (cp ''total'') of Inl e \<Rightarrow> ([], Some e) | Inr n_total \<Rightarrow>
      case dict_item counts (cp ''A'') of Inl e \<Rightarrow> ([], Some e) | Inr a \<Rightarrow>
      case dict_item counts (cp ''T'') of Inl e \<Rightarrow> ([], Some e) | Inr t \<Rightarrow>
      case dict_item counts (cp ''G'') of Inl e \<Rightarrow> ([], Some e) | Inr g \<Rightarrow>
      case dict_item counts (cp ''C'') of Inl e \<Rightarrow> ([], Some e) | Inr c \<Rightarrow>
        (case print_freqs [(cp ''A:'', a), (cp ''T:'', t), (cp ''G:'', g), (cp ''C:'', c)] n_total of
           (ls, r) \<Rightarrow>
             (line_header header # line_length n_total # [Str (cp ''Frecuencias:'')] # ls, r)))"

definition line_advisory :: "pystr \<Rightarrow> pystr \<Rightarrow> line" where
  "line_advisory header ch =
     [Str (cp ''Aviso: caracter inv'' @ [225] @ cp ''lido '' @ [39] @ ch @ [39]
           @ cp '' ignorado en la secuencia '' @ [39] @ header @ [39])]"

text \<open>
  How a run of \<open>main\<close> ends: with a return code, or with an exception that no
  handler of \<open>main\<close> catches.
\<close>

datatype outcome = Returns int | Raises error

text \<open>
  The part of \<open>main\<close> inside its second \<open>try\<close>, on the content read from the
  file. A \<open>ValueError\<close> is printed and gives the code 1; nothing else is caught.
\<close>

definition handle_value_error :: "line list \<Rightarrow> error \<Rightarrow> line list \<times> outcome" where
  "handle_value_error out e =
     (case e of
        ValueError m \<Rightarrow> (out @ [[Str m]], Returns 1)
      | _ \<Rightarrow> (out, Raises e))"

definition process_content :: "(codepoint \<Rightarrow> pystr) \<Rightarrow> pystr \<Rightarrow> line list \<times> outcome" where
  "process_content ucd contenido =
     (case validate_is_fasta contenido of Inl e \<Rightarrow> handle_value_error [] e | Inr u \<Rightarrow>
      case parse_single_fasta contenido of Inl e \<Rightarrow> handle_value_error [] e
      | Inr (header, seq_raw) \<Rightarrow>
        (case clean_sequence ucd seq_raw default_valid_bases of
           (seq_clean, invalid_chars) \<Rightarrow>
             (let out = map (line_advisory header) invalid_chars
              in if length seq_clean = 0
                 then (out @ [[Str msg_no_valid_bases]], Returns 1)
                 else (let counts = compute_base_counts seq_clean
                       in (case print_results header counts of
                             (ls, None) \<Rightarrow> (out @ ls, Returns 0)
                           | (ls, Some e) \<Rightarrow> handle_value_error (out @ ls) e)))))"

text \<open>\<open>main\<close> from the path that \<open>parse_args\<close> hands over.\<close>

definition main :: "(codepoint \<Rightarrow> pystr) \<Rightarrow> (pystr \<Rightarrow> file_state) \<Rightarrow> pystr \<Rightarrow> line list \<times> outcome" where
  "main ucd fs ruta =
     (case read_file fs ruta of
        Inl (FileNotFoundError p) \<Rightarrow>
          ([[Str (cp ''Error: el archivo no existe:''), Str ruta]], Returns 1)
      | Inl (IOError e) \<Rightarrow>
          ([[Str (cp ''Error al leer el archivo:''), Str e]], Returns 1)
      | Inl e \<Rightarrow> ([], Raises e)
      | Inr contenido \<Rightarrow> process_content ucd contenido)"

text \<open>A file system that holds one readable file.\<close>

definition one_file :: "pystr \<Rightarrow> pystr \<Rightarrow> pystr \<Rightarrow> file_state" where
  "one_file path text p = (if p = path then Content text else Missing)"

section \<open>Counting k-mers (k\_mers.py)\<close>

definition msg_null_sequence :: pystr where
  "msg_null_sequence = cp ''La secuencia no puede ser nula''"

definition msg_blank_sequence :: pystr where
  "msg_blank_sequence =
     cp ''La secuencia est'' @ [225] @ cp '' vac'' @ [237] @ cp ''a despu'' @ [233]
       @ cp ''s de eliminar espacios''"

definition msg_invalid_chars :: "pystr list \<Rightarrow> pystr" where
  "msg_invalid_chars offending =
     cp ''La secuencia contiene caracteres inv'' @ [225] @ cp ''lidos: ''
       @ str_join (cp '','') offending @ cp ''. '' @ cp ''Solo se permiten A, T, C, G.''"

definition msg_k_not_positive :: pystr where
  "msg_k_not_positive = cp ''k debe ser un entero positivo''"

definition msg_k_too_large :: pystr where
  "msg_k_too_large = cp ''k no puede ser mayor que la longitud de la secuencia''"

text \<open>
  The argument is \<open>None\<close> or a string. The two sets hold characters, and
  \<open>sorted(invalid)\<close> lists them by code point as one-character strings.
\<close>

definition validate_sequence :: "(codepoint \<Rightarrow> pystr) \<Rightarrow> pystr option \<Rightarrow> error + pystr" where
  "validate_sequence ucd seq =
     (case seq of
        None \<Rightarrow> Inl (ValueError msg_null_sequence)
      | Some s \<Rightarrow>
          (let normalized = str_upper ucd (str_join [] (str_split_ws s))
           in if length normalized = 0 then Inl (ValueError msg_blank_sequence)
              else (let allowed = set (cp ''ATCG'');
                        invalid = set normalized - allowed
                    in if invalid \<noteq> {}
                       then Inl (ValueError
                              (msg_invalid_chars (map (\<lambda>c. [c]) (sorted_list_of_set invalid))))
                       else Inr normalized)))"

text \<open>
  The body of the loop of \<open>count_kmers\<close> at position \<open>i\<close>; the slice
  \<open>seq[i : i + k]\<close> is \<open>take k (drop i seq)\<close>.
\<close>

definition count_step :: "pystr \<Rightarrow> nat \<Rightarrow> nat \<Rightarrow> (pystr \<times> nat) list \<Rightarrow> (pystr \<times> nat) list" where
  "count_step seq k i counts =
     (let kmer = take k (drop i seq)
      in AList.update kmer (dict_get counts kmer 0 + 1) counts)"

definition count_kmers :: "pystr \<Rightarrow> int \<Rightarrow> error + (pystr \<times> nat) list" where
  "count_kmers seq k =
     (if k \<le> 0 then Inl (ValueError msg_k_not_positive)
      else if int (length seq) < k then Inl (ValueError msg_k_too_large)
      else Inr (fold (count_step seq (nat k)) [0 ..< nat (int (length seq) - k + 1)] []))"

section \<open>Filtering a gene expression table (gene\_expression.py)\<close>

text \<open>
  A loaded table is the list of its rows. The type \<open>'g\<close> of the gene column is the
  dtype that \<open>read_csv\<close> inferred for it: strings, compared code point by code point,
  when an identifier has a letter in it, and integers when every identifier is all
  digits. A gene cell can be missing, which is \<open>None\<close>. The expression values and the
  threshold are of one linearly ordered type \<open>'e\<close>, as the floats are; the missing
  expression values are gone after loading.
\<close>

record ('g, 'e) gene_row =
  gene :: "'g option"
  expression :: 'e

text \<open>
  \<open>sort_values(by)\<close> takes the rows in the order that numpy's \<open>argsort\<close> gives
  for the keys that are present, and puts the rows with a missing key last. The
  default kind of \<open>argsort\<close> is not stable, so it is the parameter \<open>argsort\<close>, and
  \<open>argsort_ok\<close> is what numpy promises of it: every position once, in an order in
  which the keys ascend.
\<close>

definition argsort_ok :: "(('k::linorder) list \<Rightarrow> nat list) \<Rightarrow> bool" where
  "argsort_ok argsort =
     (\<forall>keys. mset (argsort keys) = mset [0 ..< length keys]
             \<and> sorted (map (\<lambda>i. keys ! i) (argsort keys)))"

definition take_rows :: "'r list \<Rightarrow> nat list \<Rightarrow> error + 'r list" where
  "take_rows rows indexer =
     (if list_all (\<lambda>i. i < length rows) indexer
      then Inr (map (\<lambda>i. rows ! i) indexer)
      else Inl IndexError)"

definition sort_values ::
  "('k list \<Rightarrow> nat list) \<Rightarrow> ('r \<Rightarrow> 'k option) \<Rightarrow> 'r list \<Rightarrow> error + 'r list" where
  "sort_values argsort by rows =
     (let present = filter (\<lambda>r. by r \<noteq> None) rows;
          missing = filter (\<lambda>r. by r = None) rows
      in (case take_rows present (argsort (map (\<lambda>r. the (by r)) present)) of
            Inl e \<Rightarrow> Inl e
          | Inr sorted_rows \<Rightarrow> Inr (sorted_rows @ missing)))"

definition filter_gene ::
  "('g list \<Rightarrow> nat list) \<Rightarrow> ('g, 'e::linorder) gene_row list \<Rightarrow> 'e
     \<Rightarrow> error + ('g, 'e) gene_row list" where
  "filter_gene argsort df threshold =
     (let filtered = filter (\<lambda>r. threshold \<le> expression r) df
      in sort_values argsort gene filtered)"

text \<open>\<open>str\<close> of an integer: its decimal digits, after a minus sign if it is negative.\<close>

fun digits :: "nat \<Rightarrow> pystr" where
  "digits n = (if n < 10 then [48 + n] else digits (n div 10) @ [48 + n mod 10])"

definition str_of_int :: "int \<Rightarrow> pystr" where
  "str_of_int i = (if i < 0 then 45 # digits (nat (- i)) else digits (nat i))"

text \<open>
  What \<open>main\<close> prints once \<open>load_expression_table\<close> has returned \<open>df\<close>; reading
  the file is the work of pandas and is not modelled. \<open>to_str\<close> is \<open>str\<close> on a gene
  cell of the column's type; a missing cell prints as \<open>nan\<close>.
\<close>

definition report_genes ::
  "('g list \<Rightarrow> nat list) \<Rightarrow> ('g \<Rightarrow> pystr) \<Rightarrow> ('g, 'e::linorder) gene_row list \<Rightarrow> 'e
     \<Rightarrow> error + line list" where
  "report_genes argsort to_str df threshold =
     (case filter_gene argsort df threshold of
        Inl e \<Rightarrow> Inl e
      | Inr filtered \<Rightarrow>
          Inr (if filtered = []
               then [[Str (cp ''No se encontraron genes por encima del threshold.'')]]
               else [Str (cp ''Genes filtrados:'')]
                      # map (\<lambda>r. [Str (case gene r of None \<Rightarrow> cp ''nan'' | Some g \<Rightarrow> to_str g)])
                            filtered))"

text \<open>
  One \<open>argsort\<close>: an insertion sort of the keys paired with their positions, which
  is what numpy runs on a short array.
\<close>

definition argsort_insertion :: "('k::linorder) list \<Rightarrow> nat list" where
  "argsort_insertion keys = map snd (sort_key fst (zip keys [0 ..< length keys]))"

section \<open>Theorems\<close>

subsection \<open>Rock, paper, scissors\<close>

lemma cp_eq_iff: "cp s = cp t \<longleftrightarrow> s = t"
proof -
  have "inj (of_char :: char \<Rightarrow> nat)"
    by (rule injI) simp
  then show ?thesis
    unfolding cp_def by (simp add: inj_map_eq_map)
qed

text \<open>
  C7. For each of the nine pairs of choices from rock, paper and scissors,
  \<open>determine_result\<close> is a draw exactly when the two choices are equal, and otherwise
  it is a win for the user when the user's choice beats the CPU's in the cycle
  rock beats scissors, scissors beats paper, paper beats rock, and a loss if not.
\<close>

theorem determine_result_table:
  "\<forall>user \<in> set VALID_CHOICES. \<forall>cpu \<in> set VALID_CHOICES.
     (determine_result user cpu = cp ''draw'' \<longleftrightarrow> user = cpu)
     \<and> (user \<noteq> cpu \<longrightarrow>
          determine_result user cpu = (if spec_beats user cpu then cp ''win'' else cp ''lose''))"
  by (simp add: VALID_CHOICES_def determine_result_def wins_def cp_eq_iff)

theorem determine_result_table_witness:
  "cp ''rock'' \<in> set VALID_CHOICES \<and> cp ''scissors'' \<in> set VALID_CHOICES
   \<and> cp ''rock'' \<noteq> cp ''scissors''
   \<and> determine_result (cp ''rock'') (cp ''scissors'') = cp ''win''
   \<and> determine_result (cp ''scissors'') (cp ''rock'') = cp ''lose''
   \<and> determine_result (cp ''rock'') (cp ''rock'') = cp ''draw''"
proof -
  have r: "cp ''rock'' \<in> set VALID_CHOICES" and s: "cp ''scissors'' \<in> set VALID_CHOICES"
    by (simp_all add: VALID_CHOICES_def)
  have ne: "cp ''rock'' \<noteq> cp ''scissors''"
    by (simp add: cp_eq_iff)
  from determine_result_table r s
  have a: "determine_result (cp ''rock'') (cp ''scissors'')
             = (if spec_beats (cp ''rock'') (cp ''scissors'') then cp ''win'' else cp ''lose'')"
    using ne by blast
  from determine_result_table r s
  have b: "determine_result (cp ''scissors'') (cp ''rock'')
             = (if spec_beats (cp ''scissors'') (cp ''rock'') then cp ''win'' else cp ''lose'')"
    using ne by metis
  from determine_result_table r
  have c: "determine_result (cp ''rock'') (cp ''rock'') = cp ''draw''"
    by blast
  show ?thesis
    using r s ne a b c by (simp add: cp_eq_iff)
qed

lemma map_of_wins_None: "user \<notin> set VALID_CHOICES \<Longrightarrow> map_of wins user = None"
  by (simp add: VALID_CHOICES_def wins_def)

text \<open>
  C10. \<open>determine_result\<close> does not validate its arguments: for a user string that is
  none of the three choices and a CPU string different from it, the result is
  \<open>lose\<close>. \<open>determine_result\<close> returns a string on every input, so it signals
  nothing; the failure for an invalid choice comes from \<open>play\<close>, which raises it
  exactly when the user's choice is none of the three.
\<close>

theorem determine_result_unvalidated:
  "(user \<notin> set VALID_CHOICES \<and> cpu \<noteq> user \<longrightarrow> determine_result user cpu = cp ''lose'')
   \<and> ((\<exists>m. play randbelow user = Inl (ValueError m)) \<longleftrightarrow> user \<notin> set VALID_CHOICES)
   \<and> (user \<notin> set VALID_CHOICES \<longrightarrow>
         play randbelow user = Inl (ValueError (msg_invalid_choice user)))"
proof -
  have a: "determine_result user cpu = cp ''lose''" if "user \<notin> set VALID_CHOICES" "cpu \<noteq> user"
    using that map_of_wins_None [of user] by (auto simp add: determine_result_def)
  have b: "play randbelow user = Inl (ValueError (msg_invalid_choice user))"
    if "user \<notin> set VALID_CHOICES"
    using that by (simp add: play_def)
  have c: "play randbelow user \<noteq> Inl (ValueError m)" if "user \<in> set VALID_CHOICES" for m
    using that by (simp add: play_def random_choice_def Let_def split: sum.splits)
  show ?thesis using a b c by blast
qed

theorem determine_result_unvalidated_witness:
  "cp ''lizard'' \<notin> set VALID_CHOICES \<and> cp ''rock'' \<noteq> cp ''lizard''
   \<and> determine_result (cp ''lizard'') (cp ''rock'') = cp ''lose''
   \<and> play (\<lambda>n. 0) (cp ''lizard'') = Inl (ValueError (msg_invalid_choice (cp ''lizard'')))"
proof -
  have a: "cp ''lizard'' \<notin> set VALID_CHOICES"
    by (simp add: VALID_CHOICES_def cp_eq_iff)
  have b: "cp ''rock'' \<noteq> cp ''lizard''"
    by (simp add: cp_eq_iff)
  show ?thesis
    using a b determine_result_unvalidated [of "cp ''lizard''" "cp ''rock''" "\<lambda>n. 0"]
    by blast
qed

subsection \<open>Base frequencies\<close>

lemma length_by_four:
  "set seq \<subseteq> {a, b, c, d} \<Longrightarrow> distinct [a, b, c, d] \<Longrightarrow>
   str_count seq a + str_count seq b + str_count seq c + str_count seq d = length seq"
  by (induction seq) (auto simp add: str_count_def)

text \<open>
  C1. For a cleaned sequence, a string over A, T, G and C, the dictionary of
  \<open>compute_base_counts\<close> holds the four counts and the total, the four counts add up
  to the total, and the total is the length of the sequence.
\<close>

theorem compute_base_counts_total:
  assumes "set seq \<subseteq> set (cp ''ATGC'')"
  shows "\<exists>a t g c n. dict_item (compute_base_counts seq) (cp ''A'') = Inr a
           \<and> dict_item (compute_base_counts seq) (cp ''T'') = Inr t
           \<and> dict_item (compute_base_counts seq) (cp ''G'') = Inr g
           \<and> dict_item (compute_base_counts seq) (cp ''C'') = Inr c
           \<and> dict_item (compute_base_counts seq) (cp ''total'') = Inr n
           \<and> a + t + g + c = n \<and> n = length seq"
proof -
  from assms have "set seq \<subseteq> {65, 84, 71, 67}"
    by (simp add: cp_def)
  then have "str_count seq 65 + str_count seq 84 + str_count seq 71 + str_count seq 67 = length seq"
    by (rule length_by_four) simp
  then show ?thesis
    by (simp add: compute_base_counts_def dict_item_def cp_eq_iff)
qed

theorem compute_base_counts_total_witness:
  "set (cp ''AATG'') \<subseteq> set (cp ''ATGC'')
   \<and> dict_item (compute_base_counts (cp ''AATG'')) (cp ''A'') = Inr 2
   \<and> dict_item (compute_base_counts (cp ''AATG'')) (cp ''total'') = Inr 4"
proof -
  have a: "set (cp ''AATG'') \<subseteq> set (cp ''ATGC'')"
    by (simp add: cp_def)
  have b: "dict_item (compute_base_counts (cp ''AATG'')) (cp ''A'') = Inr 2"
    by (simp add: compute_base_counts_def dict_item_def str_count_def cp_def)
  from compute_base_counts_total [OF a] obtain n where
    "dict_item (compute_base_counts (cp ''AATG'')) (cp ''total'') = Inr n" and "n = length (cp ''AATG'')"
    by blast
  then show ?thesis using a b by (simp add: cp_def)
qed

lemma clean_loop_eq:
  "clean_loop vb s acc bad =
     (acc @ map (\<lambda>c. [c]) (filter (\<lambda>c. [c] \<in> set vb) s),
      bad @ map (\<lambda>c. [c]) (filter (\<lambda>c. [c] \<notin> set vb) s))"
  by (induction s arbitrary: acc bad) auto

lemma str_join_empty: "str_join [] xs = concat xs"
  by (induction xs rule: induct_list012) auto

lemma concat_singletons: "concat (map (\<lambda>c. [c]) xs) = xs"
  by (induction xs) auto

lemma clean_sequence_eq:
  "clean_sequence ucd seq vb =
     (filter (\<lambda>c. [c] \<in> set vb) (str_upper ucd seq),
      map (\<lambda>c. [c]) (filter (\<lambda>c. [c] \<notin> set vb) (str_upper ucd seq)))"
  by (simp add: clean_sequence_def Let_def clean_loop_eq str_join_empty concat_singletons)

lemma str_upper_length:
  "list_all (\<lambda>c. length (upper_char ucd c) = 1) seq \<Longrightarrow> length (str_upper ucd seq) = length seq"
  by (induction seq) (auto simp add: str_upper_def)

lemma length_filter_partition:
  "length (filter P xs) + length (filter (\<lambda>x. \<not> P x) xs) = length xs"
  by (induction xs) auto

text \<open>
  C9, as amended. \<open>clean_sequence\<close> splits the upper-cased input in two: the
  cleaned sequence is its valid characters and the list of invalid characters is the
  rest, both in their order, so the two lengths add up to the length of the upper-cased
  input. They add up to the length of the input itself when upper-casing maps each of
  its characters to one character.
\<close>

theorem clean_sequence_partition:
  assumes "clean_sequence ucd seq valid_bases = (cleaned, invalid_chars)"
  shows "cleaned = filter (\<lambda>c. [c] \<in> set valid_bases) (str_upper ucd seq)
         \<and> invalid_chars = map (\<lambda>c. [c]) (filter (\<lambda>c. [c] \<notin> set valid_bases) (str_upper ucd seq))
         \<and> length cleaned + length invalid_chars = length (str_upper ucd seq)
         \<and> (list_all (\<lambda>c. length (upper_char ucd c) = 1) seq \<longrightarrow>
              length cleaned + length invalid_chars = length seq)"
proof -
  from assms have c: "cleaned = filter (\<lambda>c. [c] \<in> set valid_bases) (str_upper ucd seq)"
    and i: "invalid_chars = map (\<lambda>c. [c]) (filter (\<lambda>c. [c] \<notin> set valid_bases) (str_upper ucd seq))"
    by (simp_all add: clean_sequence_eq)
  have l: "length cleaned + length invalid_chars = length (str_upper ucd seq)"
    unfolding c i by (simp add: length_filter_partition)
  show ?thesis
    using c i l str_upper_length [of ucd seq] by simp
qed

theorem clean_sequence_partition_witness:
  "clean_sequence ucd_unchanged (cp ''aTgNxyz '' @ [10]) default_valid_bases
     = (cp ''ATG'', [cp ''N'', cp ''X'', cp ''Y'', cp ''Z'', cp '' '', [10]])
   \<and> list_all (\<lambda>c. length (upper_char ucd_unchanged c) = 1) (cp ''aTgNxyz '' @ [10])
   \<and> length (cp ''ATG'') + length [cp ''N'', cp ''X'', cp ''Y'', cp ''Z'', cp '' '', [10]]
       = length (cp ''aTgNxyz '' @ [10])"
proof -
  have a: "clean_sequence ucd_unchanged (cp ''aTgNxyz '' @ [10]) default_valid_bases
     = (cp ''ATG'', [cp ''N'', cp ''X'', cp ''Y'', cp ''Z'', cp '' '', [10]])"
    by (simp add: clean_sequence_eq str_upper_def upper_char_def default_valid_bases_def cp_def)
  have b: "list_all (\<lambda>c. length (upper_char ucd_unchanged c) = 1) (cp ''aTgNxyz '' @ [10])"
    by (simp add: upper_char_def cp_def)
  from clean_sequence_partition [OF a] b show ?thesis
    using a by blast
qed

text \<open>
  C9 as the claim states it fails: on the one-character input \<open>U+00DF\<close>, whose upper
  case is \<open>SS\<close>, the two lengths add up to 2.
\<close>

theorem clean_sequence_length_counterexample:
  "length (fst (clean_sequence ucd_unchanged [223] default_valid_bases))
     + length (snd (clean_sequence ucd_unchanged [223] default_valid_bases))
   \<noteq> length [223 :: nat]"
  by (simp add: clean_sequence_eq str_upper_def upper_char_def default_valid_bases_def cp_def)

lemma str_split_not_Nil: "str_split sep s \<noteq> []"
  by (induction s) (simp_all split: list.split)

lemma str_split_length: "length (str_split sep s) = Suc (str_count s sep)"
proof (induction s)
  case Nil
  show ?case by (simp add: str_count_def)
next
  case (Cons c cs)
  obtain w ws where w: "str_split sep cs = w # ws"
    using str_split_not_Nil [of sep cs] by (cases "str_split sep cs") auto
  show ?case
  proof (cases "c = sep")
    case True
    then show ?thesis using Cons by (simp add: str_count_def)
  next
    case False
    then show ?thesis using Cons w by (simp add: str_count_def)
  qed
qed

lemma str_split_two: 
  assumes "sep \<in> set s" shows "2 \<le> length (str_split sep s)"
proof -
  from assms have "filter (\<lambda>x. x = sep) s \<noteq> []"
    by (simp add: filter_empty_conv)
  then have "0 < str_count s sep"
    by (simp add: str_count_def)
  then show ?thesis
    by (simp add: str_split_length)
qed

lemma msg_fasta_distinct: "msg_not_fasta \<noteq> msg_empty_fasta"
  by (simp add: msg_not_fasta_def msg_empty_fasta_def cp_def)

lemma example_validate:
  "validate_is_fasta (cp ''>seq1'' @ [10] @ cp ''ATGCatgNxyz'' @ [10]) = Inr ()"
  by (simp add: validate_is_fasta_def cp_def)

lemma example_parse:
  "parse_single_fasta (cp ''>seq1'' @ [10] @ cp ''ATGCatgNxyz'' @ [10])
     = Inr (cp ''seq1'', cp ''ATGCatgNxyz'')"
  by (simp add: parse_single_fasta_def cp_def str_strip_def is_space_def)

lemma example_clean:
  "clean_sequence ucd (cp ''ATGCatgNxyz'') default_valid_bases
     = (cp ''ATGCATG'', [cp ''N'', cp ''X'', cp ''Y'', cp ''Z''])"
  by (simp add: clean_sequence_eq str_upper_def upper_char_def default_valid_bases_def cp_def)

lemma example_print:
  "print_results h (compute_base_counts (cp ''ATGCATG'')) =
     ([line_header h, line_length 7, [Str (cp ''Frecuencias:'')],
       [Str (cp ''A:''), Num 2, Pct (to_double (2857 / 100))],
       [Str (cp ''T:''), Num 2, Pct (to_double (2857 / 100))],
       [Str (cp ''G:''), Num 2, Pct (to_double (2857 / 100))],
       [Str (cp ''C:''), Num 1, Pct (to_double (1429 / 100))]], None)"
  by code_simp

lemma example_process:
  "process_content ucd (cp ''>seq1'' @ [10] @ cp ''ATGCatgNxyz'' @ [10]) =
     (map (line_advisory (cp ''seq1'')) [cp ''N'', cp ''X'', cp ''Y'', cp ''Z'']
       @ [line_header (cp ''seq1''), line_length 7, [Str (cp ''Frecuencias:'')],
          [Str (cp ''A:''), Num 2, Pct (to_double (2857 / 100))],
          [Str (cp ''T:''), Num 2, Pct (to_double (2857 / 100))],
          [Str (cp ''G:''), Num 2, Pct (to_double (2857 / 100))],
          [Str (cp ''C:''), Num 1, Pct (to_double (1429 / 100))]],
      Returns 0)"
proof -
  have n: "length (cp ''ATGCATG'') \<noteq> 0"
    by (simp add: cp_def)
  show ?thesis
    unfolding process_content_def example_validate example_parse
    using n by (simp add: example_clean example_print)
qed

lemma main_content: "fs ruta = Content text \<Longrightarrow> main ucd fs ruta = process_content ucd text"
  by (simp add: main_def read_file_def)

text \<open>
  C2, as amended. On a file with the content \<open>>seq1\nATGCatgNxyz\n\<close> the
  counter prints the advisories for N, X, Y and Z in that order and no other, then the
  report, whose valid-sequence length is 7 (the seven bases \<open>ATGCATG\<close>), and
  returns 0.
\<close>

theorem main_example:
  assumes "fs ruta = Content (cp ''>seq1'' @ [10] @ cp ''ATGCatgNxyz'' @ [10])"
  shows "main ucd fs ruta =
     (map (line_advisory (cp ''seq1'')) [cp ''N'', cp ''X'', cp ''Y'', cp ''Z'']
       @ [line_header (cp ''seq1''), line_length 7, [Str (cp ''Frecuencias:'')],
          [Str (cp ''A:''), Num 2, Pct (to_double (2857 / 100))],
          [Str (cp ''T:''), Num 2, Pct (to_double (2857 / 100))],
          [Str (cp ''G:''), Num 2, Pct (to_double (2857 / 100))],
          [Str (cp ''C:''), Num 1, Pct (to_double (1429 / 100))]],
      Returns 0)"
  unfolding main_content [where fs = fs and ruta = ruta, OF assms]
  by (rule example_process)

theorem main_example_witness:
  "one_file (cp ''seq.fasta'') (cp ''>seq1'' @ [10] @ cp ''ATGCatgNxyz'' @ [10]) (cp ''seq.fasta'')
     = Content (cp ''>seq1'' @ [10] @ cp ''ATGCatgNxyz'' @ [10])
   \<and> snd (main ucd_unchanged
            (one_file (cp ''seq.fasta'') (cp ''>seq1'' @ [10] @ cp ''ATGCatgNxyz'' @ [10]))
            (cp ''seq.fasta'')) = Returns 0
   \<and> line_length 7 \<in> set (fst (main ucd_unchanged
            (one_file (cp ''seq.fasta'') (cp ''>seq1'' @ [10] @ cp ''ATGCatgNxyz'' @ [10]))
            (cp ''seq.fasta'')))"
proof -
  let ?fs = "one_file (cp ''seq.fasta'') (cp ''>seq1'' @ [10] @ cp ''ATGCatgNxyz'' @ [10])"
  have a: "?fs (cp ''seq.fasta'') = Content (cp ''>seq1'' @ [10] @ cp ''ATGCatgNxyz'' @ [10])"
    by (simp add: one_file_def)
  note m = main_example [where fs = ?fs and ruta = "cp ''seq.fasta''" and ucd = ucd_unchanged, OF a]
  show ?thesis
    unfolding m using a by simp
qed

text \<open>
  C2 as the claim states it fails: no line of that run reports a valid-sequence length
  of 8.
\<close>

theorem main_example_length_counterexample:
  "line_length 8 \<notin> set (fst (main ucd_unchanged
      (one_file (cp ''seq.fasta'') (cp ''>seq1'' @ [10] @ cp ''ATGCatgNxyz'' @ [10]))
      (cp ''seq.fasta'')))"
proof -
  let ?fs = "one_file (cp ''seq.fasta'') (cp ''>seq1'' @ [10] @ cp ''ATGCatgNxyz'' @ [10])"
  have a: "?fs (cp ''seq.fasta'') = Content (cp ''>seq1'' @ [10] @ cp ''ATGCatgNxyz'' @ [10])"
    by (simp add: one_file_def)
  show ?thesis
    unfolding main_content [where fs = ?fs and ruta = "cp ''seq.fasta''", OF a] example_process
    by (simp add: line_length_def line_header_def line_advisory_def)
qed

lemma msg_sequence_distinct: "msg_empty_sequence \<noteq> msg_empty_fasta"
  by (simp add: msg_empty_sequence_def msg_empty_fasta_def cp_def)

lemma marker_only_process:
  "process_content ucd (cp ''>'') = ([[Str msg_empty_sequence]], Returns 1)"
  by (simp add: process_content_def validate_is_fasta_def parse_single_fasta_def
      handle_value_error_def str_strip_def cp_def)

text \<open>
  C3. \<open>validate_is_fasta\<close> never fails with the empty-FASTA message: a content with
  the marker splits in at least two parts, so the test \<open>len(partes) < 2\<close> is false
  whenever it is reached. On the content \<open>>\<close>, a marker and no record body, the
  validation passes and the counter ends with the empty-sequence message of
  \<open>parse_single_fasta\<close>, a different one.
\<close>

theorem empty_fasta_unreachable:
  "validate_is_fasta content \<noteq> Inl (ValueError msg_empty_fasta)
   \<and> validate_is_fasta (cp ''>'') = Inr ()
   \<and> process_content ucd (cp ''>'') = ([[Str msg_empty_sequence]], Returns 1)
   \<and> msg_empty_sequence \<noteq> msg_empty_fasta"
proof -
  have a: "validate_is_fasta content \<noteq> Inl (ValueError msg_empty_fasta)"
  proof (cases "62 \<in> set content")
    case True
    then show ?thesis
      using str_split_two [of 62 content] by (simp add: validate_is_fasta_def Let_def)
  next
    case False
    then show ?thesis
      using msg_fasta_distinct by (simp add: validate_is_fasta_def)
  qed
  have b: "validate_is_fasta (cp ''>'') = Inr ()"
    by (simp add: validate_is_fasta_def cp_def)
  show ?thesis
    using a b marker_only_process msg_sequence_distinct by simp
qed

subsection \<open>k-mers\<close>

lemma sum_count_update:
  "sum_list (map snd (AList.update k (dict_get al k 0 + 1) al)) = Suc (sum_list (map snd al))"
  by (induction al) (auto simp add: dict_get_def)

lemma count_step_sum:
  "sum_list (map snd (count_step seq k i counts)) = Suc (sum_list (map snd counts))"
  unfolding count_step_def Let_def by (rule sum_count_update)

lemma count_step_distinct:
  "distinct (map fst counts) \<Longrightarrow> distinct (map fst (count_step seq k i counts))"
  by (simp add: count_step_def Let_def distinct_update)

lemma fold_count_step:
  "distinct (map fst counts) \<Longrightarrow>
   distinct (map fst (fold (count_step seq k) is counts))
   \<and> sum_list (map snd (fold (count_step seq k) is counts))
       = sum_list (map snd counts) + length is"
proof (induction "is" arbitrary: counts)
  case Nil
  then show ?case by simp
next
  case (Cons i "is")
  from Cons.prems have "distinct (map fst (count_step seq k i counts))"
    by (rule count_step_distinct)
  from Cons.IH [OF this] show ?case
    by (simp add: count_step_sum)
qed

text \<open>
  C4. For a sequence and an integer \<open>k\<close> with \<open>1 \<le> k \<le> len(seq)\<close>,
  \<open>count_kmers\<close> returns a dictionary (its keys are distinct) whose counts add up to
  \<open>len(seq) - k + 1\<close>, and for \<open>k = len(seq)\<close> it holds the sequence itself with
  the count 1 and nothing else. For \<open>k \<le> 0\<close> or \<open>k > len(seq)\<close> it raises a
  \<open>ValueError\<close>. This holds for every string, validated or not.
\<close>

theorem count_kmers_total:
  "(1 \<le> k \<and> k \<le> int (length seq) \<longrightarrow>
      (\<exists>counts. count_kmers seq k = Inr counts
         \<and> distinct (map fst counts)
         \<and> int (sum_list (map snd counts)) = int (length seq) - k + 1
         \<and> (k = int (length seq) \<longrightarrow> counts = [(seq, 1)])))
   \<and> (k \<le> 0 \<or> int (length seq) < k \<longrightarrow> (\<exists>m. count_kmers seq k = Inl (ValueError m)))"
proof (intro conjI impI)
  assume k: "1 \<le> k \<and> k \<le> int (length seq)"
  let ?n = "nat (int (length seq) - k + 1)"
  let ?c = "fold (count_step seq (nat k)) [0 ..< ?n] []"
  have r: "count_kmers seq k = Inr ?c"
    using k by (simp add: count_kmers_def)
  have f: "distinct (map fst ?c) \<and> sum_list (map snd ?c) = ?n"
    using fold_count_step [of "[]" seq "nat k" "[0 ..< ?n]"] by simp
  have s: "int (sum_list (map snd ?c)) = int (length seq) - k + 1"
    using f k by simp
  have e: "?c = [(seq, 1)]" if "k = int (length seq)"
    using that by (simp add: count_step_def dict_get_def)
  show "\<exists>counts. count_kmers seq k = Inr counts
         \<and> distinct (map fst counts)
         \<and> int (sum_list (map snd counts)) = int (length seq) - k + 1
         \<and> (k = int (length seq) \<longrightarrow> counts = [(seq, 1)])"
    using r f s e by blast
next
  assume "k \<le> 0 \<or> int (length seq) < k"
  then show "\<exists>m. count_kmers seq k = Inl (ValueError m)"
    by (auto simp add: count_kmers_def)
qed

theorem count_kmers_total_witness:
  "(1::int) \<le> 3 \<and> 3 \<le> int (length (cp ''ATCGATCGA''))
   \<and> count_kmers (cp ''ATCGATCGA'') 3
       = Inr [(cp ''ATC'', 2), (cp ''TCG'', 2), (cp ''CGA'', 2), (cp ''GAT'', 1)]
   \<and> sum_list (map snd [(cp ''ATC'', 2), (cp ''TCG'', 2), (cp ''CGA'', 2), (cp ''GAT'', 1 :: nat)]) = 7
   \<and> count_kmers (cp ''ATCG'') 4 = Inr [(cp ''ATCG'', 1)]
   \<and> count_kmers (cp ''ATCG'') 0 = Inl (ValueError msg_k_not_positive)
   \<and> count_kmers (cp ''ATCG'') 5 = Inl (ValueError msg_k_too_large)"
proof -
  have l: "length (cp ''ATCGATCGA'') = 9" "length (cp ''ATCG'') = 4"
    by (simp_all add: cp_def)
  have a: "count_kmers (cp ''ATCGATCGA'') 3
       = Inr [(cp ''ATC'', 2), (cp ''TCG'', 2), (cp ''CGA'', 2), (cp ''GAT'', 1)]"
    by code_simp
  have b: "count_kmers (cp ''ATCG'') 4 = Inr [(cp ''ATCG'', 1)]"
    using count_kmers_total [of 4 "cp ''ATCG''"] l by auto
  have c: "\<exists>m. count_kmers (cp ''ATCG'') 0 = Inl (ValueError m)"
    using count_kmers_total [of 0 "cp ''ATCG''"] by simp
  have d: "\<exists>m. count_kmers (cp ''ATCG'') 5 = Inl (ValueError m)"
    using count_kmers_total [of 5 "cp ''ATCG''"] l by simp
  have c': "count_kmers (cp ''ATCG'') 0 = Inl (ValueError msg_k_not_positive)"
    using c by (simp add: count_kmers_def)
  have d': "count_kmers (cp ''ATCG'') 5 = Inl (ValueError msg_k_too_large)"
    using d l by (simp add: count_kmers_def)
  show ?thesis
    using l a b c' d' by simp
qed

subsection \<open>Gene expression\<close>

lemma take_rows_permutation:
  assumes "mset indexer = mset [0 ..< length rows]"
  shows "take_rows rows indexer = Inr (map (\<lambda>i. rows ! i) indexer)"
    and "mset (map (\<lambda>i. rows ! i) indexer) = mset rows"
proof -
  from assms have "set indexer = set [0 ..< length rows]"
    by (rule mset_eq_setD)
  then have "list_all (\<lambda>i. i < length rows) indexer"
    by (simp add: list_all_iff)
  then show "take_rows rows indexer = Inr (map (\<lambda>i. rows ! i) indexer)"
    by (simp add: take_rows_def)
  have "mset (map (\<lambda>i. rows ! i) indexer) = image_mset (\<lambda>i. rows ! i) (mset indexer)"
    by simp
  also have "\<dots> = mset (map (\<lambda>i. rows ! i) [0 ..< length rows])"
    unfolding assms by simp
  also have "\<dots> = mset rows"
    by (simp add: map_nth)
  finally show "mset (map (\<lambda>i. rows ! i) indexer) = mset rows" .
qed

lemma sort_values_sorted:
  assumes "argsort_ok argsort"
  shows "\<exists>out. sort_values argsort by rows = Inr (out @ filter (\<lambda>r. by r = None) rows)
           \<and> mset out = mset (filter (\<lambda>r. by r \<noteq> None) rows)
           \<and> sorted (map (\<lambda>r. the (by r)) out)"
proof -
  let ?present = "filter (\<lambda>r. by r \<noteq> None) rows"
  let ?keys = "map (\<lambda>r. the (by r)) ?present"
  let ?idx = "argsort ?keys"
  let ?out = "map (\<lambda>i. ?present ! i) ?idx"
  from assms have p: "mset ?idx = mset [0 ..< length ?present]"
    and s: "sorted (map (\<lambda>i. ?keys ! i) ?idx)"
    unfolding argsort_ok_def by (metis length_map)+
  have r: "\<forall>i \<in> set ?idx. i < length ?present"
    using mset_eq_setD [OF p] by simp
  then have e: "map (\<lambda>r. the (by r)) ?out = map (\<lambda>i. ?keys ! i) ?idx"
    by simp
  have "sorted (map (\<lambda>r. the (by r)) ?out)"
    by (subst e) (rule s)
  moreover have "sort_values argsort by rows = Inr (?out @ filter (\<lambda>r. by r = None) rows)"
    unfolding sort_values_def Let_def take_rows_permutation(1) [OF p] by simp
  moreover have "mset ?out = mset ?present"
    by (rule take_rows_permutation(2) [OF p])
  ultimately show ?thesis by blast
qed

text \<open>
  What \<open>filter_gene\<close> does on every table: it returns exactly the rows whose
  expression is at least the threshold, those with a gene ascending in the order of
  the gene column's type, those without a gene after them.
\<close>

lemma filter_gene_sorted:
  assumes "argsort_ok argsort"
  shows "\<exists>out. filter_gene argsort df threshold
                 = Inr (out @ filter (\<lambda>r. gene r = None) (filter (\<lambda>r. threshold \<le> expression r) df))
           \<and> mset out = mset (filter (\<lambda>r. gene r \<noteq> None) (filter (\<lambda>r. threshold \<le> expression r) df))
           \<and> sorted (map (\<lambda>r. the (gene r)) out)"
  unfolding filter_gene_def Let_def by (rule sort_values_sorted [OF assms])

lemma mset_filter_split:
  "mset (filter P xs) + mset (filter (\<lambda>x. \<not> P x) xs) = mset xs"
  by (induction xs) auto

lemma filter_gene_retains:
  assumes "argsort_ok argsort"
  shows "\<exists>out. filter_gene argsort df threshold = Inr out
           \<and> mset out = mset (filter (\<lambda>r. threshold \<le> expression r) df)"
proof -
  let ?kept = "filter (\<lambda>r. threshold \<le> expression r) df"
  from filter_gene_sorted [OF assms, of df threshold] obtain out where
    o: "filter_gene argsort df threshold = Inr (out @ filter (\<lambda>r. gene r = None) ?kept)"
    and m: "mset out = mset (filter (\<lambda>r. gene r \<noteq> None) ?kept)"
    by blast
  have "mset (out @ filter (\<lambda>r. gene r = None) ?kept) = mset ?kept"
    unfolding mset_append m
    using mset_filter_split [of "\<lambda>r. gene r \<noteq> None" ?kept] by simp
  with o show ?thesis by blast
qed

lemma two_rows_sorted:
  assumes m: "mset out = {#a, b#}" and s: "sorted (map k out)" and lt: "k a < k b"
  shows "out = [a, b]"
proof -
  from m have "size (mset out) = 2" by simp
  then have "length out = 2" by simp
  then obtain x y where o: "out = [x, y]"
    by (metis (no_types, opaque_lifting) One_nat_def Suc_1 length_0_conv length_Suc_conv)
  from m o have "{#x, y#} = {#a, b#}" by simp
  then have "(x = a \<and> y = b) \<or> (x = b \<and> y = a)"
    by (auto simp add: add_eq_conv_ex)
  moreover from s o have "k x \<le> k y" by simp
  ultimately show ?thesis using lt o by auto
qed

text \<open>The example of the specification, rows (Z,1), (A,10), (B,5) and the threshold 5.\<close>

lemma filter_gene_letters:
  fixes argsort :: "pystr list \<Rightarrow> nat list"
  assumes "argsort_ok argsort"
  shows "report_genes argsort (\<lambda>g. g)
           [\<lparr>gene = Some (cp ''Z''), expression = 1\<rparr>,
            \<lparr>gene = Some (cp ''A''), expression = 10\<rparr>,
            \<lparr>gene = Some (cp ''B''), expression = (5::rat)\<rparr>] 5
         = Inr [[Str (cp ''Genes filtrados:'')], [Str (cp ''A'')], [Str (cp ''B'')]]"
proof -
  let ?df = "[\<lparr>gene = Some (cp ''Z''), expression = 1\<rparr>,
              \<lparr>gene = Some (cp ''A''), expression = 10\<rparr>,
              \<lparr>gene = Some (cp ''B''), expression = (5::rat)\<rparr>]"
  from filter_gene_sorted [OF assms, of ?df 5] obtain out where
    o: "filter_gene argsort ?df 5 = Inr out"
    and m: "mset out = {#\<lparr>gene = Some (cp ''A''), expression = 10\<rparr>,
                         \<lparr>gene = Some (cp ''B''), expression = (5::rat)\<rparr>#}"
    and s: "sorted (map (\<lambda>r. the (gene r)) out)"
    by auto
  have "cp ''A'' < cp ''B''" by (simp add: cp_def)
  then have "out = [\<lparr>gene = Some (cp ''A''), expression = 10\<rparr>,
                    \<lparr>gene = Some (cp ''B''), expression = 5\<rparr>]"
    using m s by (intro two_rows_sorted [where k = "\<lambda>r. the (gene r)"]) simp_all
  then show ?thesis
    using o by (simp add: report_genes_def)
qed

lemma str_of_int_digits: "str_of_int 9 = cp ''9'' \<and> str_of_int 10 = cp ''10''"
  by code_simp

text \<open>
  C5. On a table whose gene identifiers are all digits, which \<open>read_csv\<close> loads as
  integers, \<open>filter_gene\<close> orders the rows by number: with the genes 10 and 9 and
  both expressions at the threshold, both rows are retained and 9 is printed before 10,
  while as text \<open>10\<close> comes before \<open>9\<close>.
\<close>

theorem filter_gene_digit_genes:
  fixes argsort :: "int list \<Rightarrow> nat list"
  assumes "argsort_ok argsort"
  shows "filter_gene argsort
           [\<lparr>gene = Some 10, expression = 5\<rparr>, \<lparr>gene = Some 9, expression = (5::rat)\<rparr>] 5
         = Inr [\<lparr>gene = Some 9, expression = 5\<rparr>, \<lparr>gene = Some 10, expression = 5\<rparr>]
       \<and> report_genes argsort str_of_int
           [\<lparr>gene = Some 10, expression = 5\<rparr>, \<lparr>gene = Some 9, expression = (5::rat)\<rparr>] 5
         = Inr [[Str (cp ''Genes filtrados:'')], [Str (cp ''9'')], [Str (cp ''10'')]]
       \<and> cp ''10'' < cp ''9''"
proof -
  let ?df = "[\<lparr>gene = Some (10::int), expression = 5\<rparr>, \<lparr>gene = Some 9, expression = (5::rat)\<rparr>]"
  from filter_gene_sorted [OF assms, of ?df 5] obtain out where
    o: "filter_gene argsort ?df 5 = Inr out"
    and m: "mset out = {#\<lparr>gene = Some (9::int), expression = (5::rat)\<rparr>,
                         \<lparr>gene = Some 10, expression = 5\<rparr>#}"
    and s: "sorted (map (\<lambda>r. the (gene r)) out)"
    by auto
  have "out = [\<lparr>gene = Some 9, expression = 5\<rparr>, \<lparr>gene = Some 10, expression = 5\<rparr>]"
    using m s by (intro two_rows_sorted [where k = "\<lambda>r. the (gene r)"]) simp_all
  then have f: "filter_gene argsort ?df 5
         = Inr [\<lparr>gene = Some 9, expression = 5\<rparr>, \<lparr>gene = Some 10, expression = 5\<rparr>]"
    using o by simp
  have "cp ''10'' < cp ''9''" by (simp add: cp_def)
  then show ?thesis
    using f str_of_int_digits by (simp add: report_genes_def)
qed

lemma argsort_insertion_ok: "argsort_ok argsort_insertion"
proof -
  have "mset (argsort_insertion keys) = mset [0 ..< length keys]
        \<and> sorted (map (\<lambda>i. keys ! i) (argsort_insertion keys))" for keys :: "'a list"
  proof
    show "mset (argsort_insertion keys) = mset [0 ..< length keys]"
      unfolding argsort_insertion_def
      by (metis map_snd_zip length_upt minus_nat.diff_0 mset_map mset_sort)
    let ?ps = "sort_key fst (zip keys [0 ..< length keys])"
    have "\<forall>p \<in> set ?ps. keys ! snd p = fst p"
      by (auto simp add: in_set_zip)
    then have e: "map (\<lambda>i. keys ! i) (map snd ?ps) = map fst ?ps"
      by simp
    show "sorted (map (\<lambda>i. keys ! i) (argsort_insertion keys))"
      unfolding argsort_insertion_def by (subst e) (rule sorted_sort_key)
  qed
  then show ?thesis
    unfolding argsort_ok_def by blast
qed

theorem filter_gene_digit_genes_witness:
  "argsort_ok (argsort_insertion :: int list \<Rightarrow> nat list)
   \<and> filter_gene argsort_insertion
        [\<lparr>gene = Some 10, expression = 5\<rparr>, \<lparr>gene = Some 9, expression = (5::rat)\<rparr>] 5
      = Inr [\<lparr>gene = Some (9::int), expression = 5\<rparr>, \<lparr>gene = Some 10, expression = 5\<rparr>]
   \<and> report_genes argsort_insertion str_of_int
        [\<lparr>gene = Some 10, expression = 5\<rparr>, \<lparr>gene = Some 9, expression = (5::rat)\<rparr>] 5
      = Inr [[Str (cp ''Genes filtrados:'')], [Str (cp ''9'')], [Str (cp ''10'')]]"
  using argsort_insertion_ok filter_gene_digit_genes [OF argsort_insertion_ok] by simp

subsection \<open>AT content\<close>

text \<open>
  C6. The denominator of \<open>get_at_content\<close> is the full length, so on
  \<open>ATGNNNC\<close> with one decimal place the quotient is 2/7 and the result is the
  float 0.3, not the 0.5 that the assertion at the end of the source file expects.
\<close>

theorem get_at_content_example:
  "get_at_content ucd (cp ''ATGNNNC'') 1 = Inr (to_double (3 / 10))
   \<and> to_double (3 / 10) \<noteq> 1 / 2"
  by code_simp

text \<open>
  What else the claim says of \<open>get_at_content\<close>, on the float model: an empty
  sequence raises \<open>ZeroDivisionError\<close>; a sequence whose upper case holds only A and T
  gives 1.0 for every precision from 0 on; one whose upper case holds neither gives 0.0.
  The rounding is that of \<open>round\<close> on the float quotient, not of the exact fraction:
  three A in twenty symbols are 0.15, and the result at one decimal place is the float
  0.1.
\<close>

lemma round_half_even_of_int: "round_half_even (of_int m) = m"
  by (simp add: round_half_even_def)

lemma to_double_one: "to_double 1 = 1"
  by code_simp

lemma py_round_zero: "py_round 0 n = 0"
  by (simp add: py_round_def round_half_even_def to_double_def)

lemma py_round_one: "0 \<le> n \<Longrightarrow> py_round 1 n = 1"
proof -
  assume n: "0 \<le> n"
  have p: "pow10 n = 10 ^ nat n"
    using n by (simp add: pow10_def)
  have "round_half_even ((10::rat) ^ nat n) = 10 ^ nat n"
    using round_half_even_of_int [of "10 ^ nat n"] by simp
  then have "of_int (round_half_even (1 * pow10 n)) / pow10 n = 1"
    unfolding p by simp
  then show ?thesis
    using n by (simp add: py_round_def to_double_one)
qed

lemma get_at_content_empty: "get_at_content ucd [] n = Inl ZeroDivisionError"
  by (simp add: get_at_content_def str_upper_def int_true_div_def)

lemma count_two:
  "set xs \<subseteq> {a, b} \<Longrightarrow> a \<noteq> b \<Longrightarrow> str_count xs a + str_count xs b = length xs"
  by (induction xs) (auto simp add: str_count_def)

lemma get_at_content_only_AT:
  assumes "str_upper ucd dna \<noteq> []" and "set (str_upper ucd dna) \<subseteq> {65, 84}" and "0 \<le> n"
  shows "get_at_content ucd dna n = Inr 1"
proof -
  have "str_count (str_upper ucd dna) 65 + str_count (str_upper ucd dna) 84
          = length (str_upper ucd dna)"
    using assms(2) by (intro count_two) simp_all
  then show ?thesis
    using assms(1,3)
    by (simp add: get_at_content_def Let_def int_true_div_def to_double_one py_round_one)
qed

lemma get_at_content_no_AT:
  assumes "str_upper ucd dna \<noteq> []" and "65 \<notin> set (str_upper ucd dna)"
    and "84 \<notin> set (str_upper ucd dna)"
  shows "get_at_content ucd dna n = Inr 0"
proof -
  have "str_count (str_upper ucd dna) 65 = 0" "str_count (str_upper ucd dna) 84 = 0"
    using assms(2,3) by (auto simp add: str_count_def filter_empty_conv)
  then show ?thesis
    using assms(1)
    by (simp add: get_at_content_def Let_def int_true_div_def to_double_def py_round_zero)
qed

lemma get_at_content_not_half_even:
  "get_at_content ucd (cp ''AAAGGGGGGGGGGGGGGGGG'') 1 = Inr (to_double (1 / 10))"
  by code_simp

subsection \<open>Validating a sequence\<close>

declare str_split_ws.simps [simp del]

lemma dropWhile_all: "dropWhile P xs = [] \<Longrightarrow> filter (\<lambda>x. \<not> P x) xs = []"
  by (induction xs) (auto split: if_splits)

lemma filter_dropWhile_space: "filter (\<lambda>x. \<not> P x) (dropWhile P xs) = filter (\<lambda>x. \<not> P x) xs"
  by (induction xs) auto

lemma filter_after_takeWhile: "filter Q xs = takeWhile Q xs @ filter Q (dropWhile Q xs)"
  by (induction xs) auto

lemma concat_split_ws: "concat (str_split_ws s) = filter (\<lambda>c. \<not> is_space c) s"
proof (induction s rule: str_split_ws.induct)
  case (1 s)
  show ?case
  proof (cases "dropWhile is_space s")
    case Nil
    have "str_split_ws s = []"
      unfolding str_split_ws.simps [of s] Nil by simp
    then show ?thesis
      using Nil by (simp only: dropWhile_all concat.simps)
  next
    case (Cons c cs)
    have c: "\<not> is_space c"
      using Cons hd_dropWhile [of is_space s] by fastforce
    have "filter (\<lambda>c. \<not> is_space c) s = filter (\<lambda>c. \<not> is_space c) (c # cs)"
      using filter_dropWhile_space [of is_space s] Cons by simp
    also have "\<dots> = c # filter (\<lambda>c. \<not> is_space c) cs"
      using c by simp
    also have "\<dots> = c # takeWhile (\<lambda>c. \<not> is_space c) cs
                     @ filter (\<lambda>c. \<not> is_space c) (dropWhile (\<lambda>c. \<not> is_space c) cs)"
      using filter_after_takeWhile [of "\<lambda>c. \<not> is_space c" cs] by simp
    finally have f: "filter (\<lambda>c. \<not> is_space c) s
                       = c # takeWhile (\<lambda>c. \<not> is_space c) cs
                           @ filter (\<lambda>c. \<not> is_space c) (dropWhile (\<lambda>c. \<not> is_space c) cs)" .
    have "str_split_ws s = (c # takeWhile (\<lambda>x. \<not> is_space x) cs)
                             # str_split_ws (dropWhile (\<lambda>x. \<not> is_space x) cs)"
      unfolding str_split_ws.simps [of s] Cons by simp
    then show ?thesis
      using "1.IH" [OF Cons] f by simp
  qed
qed

lemma normalized_eq:
  "str_upper ucd (str_join [] (str_split_ws s)) = str_upper ucd (filter (\<lambda>c. \<not> is_space c) s)"
  by (simp add: str_join_empty concat_split_ws)

text \<open>
  C8. \<open>validate_sequence\<close> works on the normalized input, the input without its white
  space and in upper case. It fails as empty when the normalized input is empty, so on
  an empty or all-white-space input. It fails when the normalized input has characters
  outside A, T, C and G, with a message that lists those characters, each once, in
  ascending order. It succeeds exactly when the normalized input is not empty and has
  only A, T, C and G, and then returns it. \<open>None\<close> is rejected.
\<close>

theorem validate_sequence_spec:
  "validate_sequence ucd None = Inl (ValueError msg_null_sequence)
   \<and> (str_upper ucd (filter (\<lambda>c. \<not> is_space c) s) = [] \<longrightarrow>
        validate_sequence ucd (Some s) = Inl (ValueError msg_blank_sequence))
   \<and> (list_all is_space s \<longrightarrow>
        validate_sequence ucd (Some s) = Inl (ValueError msg_blank_sequence))
   \<and> (str_upper ucd (filter (\<lambda>c. \<not> is_space c) s) \<noteq> []
        \<and> \<not> set (str_upper ucd (filter (\<lambda>c. \<not> is_space c) s)) \<subseteq> set (cp ''ATCG'') \<longrightarrow>
        (\<exists>offending.
           validate_sequence ucd (Some s)
             = Inl (ValueError (msg_invalid_chars (map (\<lambda>c. [c]) offending)))
           \<and> sorted offending \<and> distinct offending
           \<and> set offending = set (str_upper ucd (filter (\<lambda>c. \<not> is_space c) s)) - set (cp ''ATCG'')))
   \<and> ((\<exists>r. validate_sequence ucd (Some s) = Inr r) \<longleftrightarrow>
        str_upper ucd (filter (\<lambda>c. \<not> is_space c) s) \<noteq> []
        \<and> set (str_upper ucd (filter (\<lambda>c. \<not> is_space c) s)) \<subseteq> set (cp ''ATCG''))
   \<and> (\<forall>r. validate_sequence ucd (Some s) = Inr r \<longrightarrow>
        r = str_upper ucd (filter (\<lambda>c. \<not> is_space c) s))"
proof -
  let ?n = "str_upper ucd (filter (\<lambda>c. \<not> is_space c) s)"
  let ?off = "sorted_list_of_set (set ?n - set (cp ''ATCG''))"
  have v: "validate_sequence ucd (Some s) =
             (if ?n = [] then Inl (ValueError msg_blank_sequence)
              else if set ?n - set (cp ''ATCG'') \<noteq> {}
                   then Inl (ValueError (msg_invalid_chars (map (\<lambda>c. [c]) ?off)))
                   else Inr ?n)"
    by (simp add: validate_sequence_def normalized_eq Let_def)
  have o: "sorted ?off \<and> distinct ?off \<and> set ?off = set ?n - set (cp ''ATCG'')"
    by simp
  have b: "?n = []" if "list_all is_space s"
  proof -
    from that have "filter (\<lambda>c. \<not> is_space c) s = []"
      by (simp add: filter_empty_conv list_all_iff)
    then show ?thesis by (simp add: str_upper_def)
  qed
  have d: "set ?n - set (cp ''ATCG'') \<noteq> {} \<longleftrightarrow> \<not> set ?n \<subseteq> set (cp ''ATCG'')"
    by blast
  show ?thesis
    unfolding v d using o b by (auto simp add: validate_sequence_def)
qed

theorem validate_sequence_spec_witness:
  "validate_sequence ucd_unchanged (Some (cp '' a t c g '')) = Inr (cp ''ATCG'')
   \<and> validate_sequence ucd_unchanged (Some (cp ''  '')) = Inl (ValueError msg_blank_sequence)
   \<and> validate_sequence ucd_unchanged (Some (cp ''aztxgx''))
       = Inl (ValueError (msg_invalid_chars [cp ''X'', cp ''Z'']))"
proof -
  have n1: "str_upper ucd_unchanged (filter (\<lambda>c. \<not> is_space c) (cp '' a t c g '')) = cp ''ATCG''"
    by (simp add: cp_def is_space_def str_upper_def upper_char_def)
  have a: "validate_sequence ucd_unchanged (Some (cp '' a t c g '')) = Inr (cp ''ATCG'')"
  proof -
    have ne: "cp ''ATCG'' \<noteq> []" by (simp add: cp_def)
    from validate_sequence_spec [of ucd_unchanged "cp '' a t c g ''"]
    have e: "(\<exists>r. validate_sequence ucd_unchanged (Some (cp '' a t c g '')) = Inr r)"
      and u: "\<forall>r. validate_sequence ucd_unchanged (Some (cp '' a t c g '')) = Inr r \<longrightarrow> r = cp ''ATCG''"
      unfolding n1 using ne by blast+
    then show ?thesis by blast
  qed
  have n2: "list_all is_space (cp ''  '')"
    by (simp add: cp_def is_space_def)
  have b: "validate_sequence ucd_unchanged (Some (cp ''  '')) = Inl (ValueError msg_blank_sequence)"
    using validate_sequence_spec [of ucd_unchanged "cp ''  ''"] n2 by blast
  have n3: "str_upper ucd_unchanged (filter (\<lambda>c. \<not> is_space c) (cp ''aztxgx'')) = cp ''AZTXGX''"
    by (simp add: cp_def is_space_def str_upper_def upper_char_def)
  have n4: "cp ''AZTXGX'' \<noteq> [] \<and> \<not> set (cp ''AZTXGX'') \<subseteq> set (cp ''ATCG'')"
    by (simp add: cp_def)
  have n5: "set (cp ''AZTXGX'') - set (cp ''ATCG'') = set [88, 90]"
    by (auto simp add: cp_def)
  from validate_sequence_spec [of ucd_unchanged "cp ''aztxgx''"] n4
  obtain offending where
    v: "validate_sequence ucd_unchanged (Some (cp ''aztxgx''))
          = Inl (ValueError (msg_invalid_chars (map (\<lambda>c. [c]) offending)))"
    and o: "sorted offending" "distinct offending"
           "set offending = set (cp ''AZTXGX'') - set (cp ''ATCG'')"
    unfolding n3 by blast
  have "offending = [88, 90]"
    using o unfolding n5 by (intro sorted_distinct_set_unique) simp_all
  then have c: "validate_sequence ucd_unchanged (Some (cp ''aztxgx''))
       = Inl (ValueError (msg_invalid_chars [cp ''X'', cp ''Z'']))"
    using v by (simp add: cp_def)
  show ?thesis using a b c by simp
qed

end
